theory Spec2Isabelle
  imports Complex_Main
begin

section \<open>Data model of \<open>src/App.tsx\<close>\<close>

text \<open>
  The component keeps the React states \<open>tracks\<close> (a list of \<open>Track\<close> records),
  \<open>isPlaying\<close> and \<open>currentTime\<close>, the ref \<open>wavesurferRefs\<close> (a dictionary from track
  id to a WaveSurfer instance), the Tone.js nodes that the track records point to, and
  it drives the shared clock \<open>Tone.Transport\<close>. A node is
  a mutable object shared by reference: the spread copy \<open>{ ...track, muted: ... }\<close>
  copies the reference, so every copy of a track record points to the same player,
  panner and pitch shifter. The model therefore stores a node address in the record
  and keeps the node parameters in the application state, indexed by address.

  JavaScript numbers that the handlers only store and compare are modelled as \<open>real\<close>
  (finite values; the sliders never produce NaN), array indices and \<open>Date.now()\<close> as
  \<open>nat\<close>.
\<close>

type_synonym node = nat

type_synonym AudioBuffer = "nat list"

record File =
  file_name :: string
  file_bytes :: "nat list"

text \<open>The interface \<open>Track\<close> (lines 6-19). The field \<open>id\<close> is called \<open>id_t\<close>.\<close>

record Track =
  id_t :: string
  name :: string
  audioBuffer :: AudioBuffer
  player :: node
  panner :: node
  pitchShift :: node
  muted :: bool
  solo :: bool
  volume :: real
  pan :: real
  pitch :: real
  blob :: File

text \<open>
  A WaveSurfer instance, as far as the component drives it: the container it was
  created on and the blobs handed to \<open>loadBlob\<close>, oldest first.
\<close>

record WaveSurfer =
  container :: string
  loaded :: "File list"

text \<open>
  The state of the component and of the objects it owns.
  \<^item> \<open>tracks\<close>: the React state of line 22;
  \<^item> \<open>wavesurferRefs\<close>: the dictionary of line 26, its values are indices into
    \<open>wavesurfers\<close>, the instances created so far in creation order;
  \<^item> \<open>player_volume\<close>, \<open>player_mute\<close>, \<open>panner_pan\<close>, \<open>pitchShift_pitch\<close>: the
    parameters \<open>player.volume.value\<close>, \<open>player.mute\<close>, \<open>panner.pan.value\<close> and
    \<open>pitchShift.pitch\<close> of the node at an address; \<open>next_node\<close> is the next free
    address;
  \<^item> \<open>player_starts\<close>: how often \<open>start()\<close> was called on the player at an address;
  \<^item> \<open>isPlaying\<close>, \<open>currentTime\<close>: the React states of lines 23 and 24;
  \<^item> \<open>transport_state\<close>, \<open>transport_seconds\<close>: the state of \<open>Tone.Transport\<close> and
    the value of \<open>Tone.Transport.seconds\<close>;
  \<^item> \<open>console\<close>: the lines written to the console. The source contains no
    \<open>console\<close> call, so no operation below extends it.

  The node parameters are independent cells. In Tone.js a muted player reports its
  volume as minus infinity; no statement below reads the volume of a muted player or
  the mute flag of a player whose volume was written.
\<close>

datatype TransportState = Stopped | Started | Paused

record App =
  tracks :: "Track list"
  wavesurferRefs :: "string \<rightharpoonup> nat"
  wavesurfers :: "WaveSurfer list"
  player_volume :: "node \<Rightarrow> real"
  player_mute :: "node \<Rightarrow> bool"
  panner_pan :: "node \<Rightarrow> real"
  pitchShift_pitch :: "node \<Rightarrow> real"
  next_node :: nat
  player_starts :: "node \<Rightarrow> nat"
  isPlaying :: bool
  currentTime :: real
  transport_state :: TransportState
  transport_seconds :: real
  console :: "string list"

definition initial :: App where
  "initial =
     \<lparr>tracks = [], wavesurferRefs = Map.empty, wavesurfers = [],
      player_volume = (\<lambda>_. 0), player_mute = (\<lambda>_. False),
      panner_pan = (\<lambda>_. 0), pitchShift_pitch = (\<lambda>_. 0),
      next_node = 0, player_starts = (\<lambda>_. 0), isPlaying = False, currentTime = 0,
      transport_state = Stopped, transport_seconds = 0, console = []\<rparr>"

section \<open>Per-track controls\<close>

text \<open>
  Every handler has two parts. The updater passed to \<open>setTracks\<close> is a function of
  the previous state (\<open>prevTracks\<close>); React applies the queued updaters in order, so
  the model applies it to \<open>tracks s\<close>. The second part reads \<open>tracks\<close> of the
  closure, that is the track list of the render the handler belongs to; it is the
  first argument \<open>cl\<close> of the handlers below. A handler called from the current
  render has \<open>cl = tracks s\<close>.
\<close>

definition handleMute_upd :: "string \<Rightarrow> Track list \<Rightarrow> Track list" where
  "handleMute_upd trackId prevTracks =
     map (\<lambda>track. if id_t track = trackId then track\<lparr>muted := \<not> muted track\<rparr> else track)
       prevTracks"

definition handleMute :: "Track list \<Rightarrow> string \<Rightarrow> App \<Rightarrow> App" where
  "handleMute cl trackId s =
     (let s1 = s\<lparr>tracks := handleMute_upd trackId (tracks s)\<rparr> in
      case List.find (\<lambda>t. id_t t = trackId) cl of
        None \<Rightarrow> s1
      | Some track \<Rightarrow> s1\<lparr>player_mute := (player_mute s1)(player track := \<not> muted track)\<rparr>)"

definition handleSolo_upd :: "string \<Rightarrow> Track list \<Rightarrow> Track list" where
  "handleSolo_upd trackId prevTracks =
     (let updatedTracks =
            map (\<lambda>track. if id_t track = trackId then track\<lparr>solo := \<not> solo track\<rparr> else track)
              prevTracks;
          hasSoloTrack = list_ex solo updatedTracks
      in map (\<lambda>track. track\<lparr>muted := (if hasSoloTrack then \<not> solo track else muted track)\<rparr>)
           updatedTracks)"

definition handleSolo :: "string \<Rightarrow> App \<Rightarrow> App" where
  "handleSolo trackId s = s\<lparr>tracks := handleSolo_upd trackId (tracks s)\<rparr>"

definition handleVolumeChange_upd :: "string \<Rightarrow> real \<Rightarrow> Track list \<Rightarrow> Track list" where
  "handleVolumeChange_upd trackId v prevTracks =
     map (\<lambda>track. if id_t track = trackId then track\<lparr>volume := v\<rparr> else track) prevTracks"

definition handleVolumeChange :: "Track list \<Rightarrow> string \<Rightarrow> real \<Rightarrow> App \<Rightarrow> App" where
  "handleVolumeChange cl trackId v s =
     (let s1 = s\<lparr>tracks := handleVolumeChange_upd trackId v (tracks s)\<rparr> in
      case List.find (\<lambda>t. id_t t = trackId) cl of
        None \<Rightarrow> s1
      | Some track \<Rightarrow> s1\<lparr>player_volume := (player_volume s1)(player track := v)\<rparr>)"

definition handlePanChange_upd :: "string \<Rightarrow> real \<Rightarrow> Track list \<Rightarrow> Track list" where
  "handlePanChange_upd trackId v prevTracks =
     map (\<lambda>track. if id_t track = trackId then track\<lparr>pan := v\<rparr> else track) prevTracks"

text \<open>
  The pan parameter of a Tone.js panner accepts values from -1 to 1 only: the
  assignment \<open>track.panner.pan.value = pan\<close> with a value outside that range throws a
  \<open>RangeError\<close> and leaves the parameter as it was. The handler has no \<open>try\<close>, so it
  ends with that exception; the updater it passed to \<open>setTracks\<close> before is queued
  already and is applied all the same. \<open>handlePanChange\<close> therefore returns what it
  threw, if anything, together with the state. (The volume of a player, in decibels,
  and the pitch of a pitch shifter have no such range.)
\<close>

datatype thrown = RangeError

definition handlePanChange :: "Track list \<Rightarrow> string \<Rightarrow> real \<Rightarrow> App \<Rightarrow> thrown option \<times> App" where
  "handlePanChange cl trackId v s =
     (let s1 = s\<lparr>tracks := handlePanChange_upd trackId v (tracks s)\<rparr> in
      case List.find (\<lambda>t. id_t t = trackId) cl of
        None \<Rightarrow> (None, s1)
      | Some track \<Rightarrow>
          if v < - 1 \<or> 1 < v then (Some RangeError, s1)
          else (None, s1\<lparr>panner_pan := (panner_pan s1)(panner track := v)\<rparr>))"

definition handlePitchChange_upd :: "string \<Rightarrow> real \<Rightarrow> Track list \<Rightarrow> Track list" where
  "handlePitchChange_upd trackId v prevTracks =
     map (\<lambda>track. if id_t track = trackId then track\<lparr>pitch := v\<rparr> else track) prevTracks"

definition handlePitchChange :: "Track list \<Rightarrow> string \<Rightarrow> real \<Rightarrow> App \<Rightarrow> App" where
  "handlePitchChange cl trackId v s =
     (let s1 = s\<lparr>tracks := handlePitchChange_upd trackId v (tracks s)\<rparr> in
      case List.find (\<lambda>t. id_t t = trackId) cl of
        None \<Rightarrow> s1
      | Some track \<Rightarrow> s1\<lparr>pitchShift_pitch := (pitchShift_pitch s1)(pitchShift track := v)\<rparr>)"

text \<open>A run of \<open>handleSolo\<close> calls, first id first.\<close>

definition handleSolo_seq :: "string list \<Rightarrow> App \<Rightarrow> App" where
  "handleSolo_seq ids s = foldl (\<lambda>acc i. handleSolo i acc) s ids"

section \<open>Transport\<close>

text \<open>
  Modelled from the spec: \<open>Tone.Transport.start()\<close>, a method of the external
  playback engine. Section 4.4 has \<open>start()\<close> take the clock from Stopped to Playing
  and from Paused to Playing, where it "resumes": the elapsed time is kept. Called
  without an offset, as the source does, it does not set the time.
\<close>

definition Transport_start :: "App \<Rightarrow> App" where
  "Transport_start s = s\<lparr>transport_state := Started\<rparr>"

text \<open>
  Modelled from the spec: \<open>Tone.Transport.pause()\<close>. Section 4.4 has \<open>pause()\<close> take
  the clock from Playing to Paused, the elapsed time frozen; the specification gives it
  no transition from another state, so there it changes nothing.
\<close>

definition Transport_pause :: "App \<Rightarrow> App" where
  "Transport_pause s = (if transport_state s = Started then s\<lparr>transport_state := Paused\<rparr> else s)"

text \<open>
  Modelled from the spec: the passing of \<open>ms\<close> milliseconds of time, as the clock of
  \<open>Tone.Transport\<close> sees it. By section 4.4 the elapsed time advances while Playing
  and is frozen while Paused or Stopped.
\<close>

definition Transport_elapse :: "nat \<Rightarrow> App \<Rightarrow> App" where
  "Transport_elapse ms s =
     (if transport_state s = Started
      then s\<lparr>transport_seconds := transport_seconds s + real ms / 1000\<rparr>
      else s)"

text \<open>\<open>track.player.start()\<close>, recorded as one more call on that player.\<close>

definition Player_start :: "node \<Rightarrow> App \<Rightarrow> App" where
  "Player_start p s = s\<lparr>player_starts := (player_starts s)(p := Suc (player_starts s p))\<rparr>"

text \<open>
  \<open>togglePlayPause\<close> (lines 81-89) reads \<open>isPlaying\<close> and \<open>tracks\<close> of its closure,
  the arguments \<open>isPlaying_cl\<close> and \<open>cl\<close>, and sets \<open>isPlaying\<close> to the negation of the
  value it read. The callback of the interval of lines 152-158, \<open>pollCurrentTime\<close>,
  copies \<open>Tone.Transport.seconds\<close> into \<open>currentTime\<close> every 100 ms.
\<close>

definition togglePlayPause :: "bool \<Rightarrow> Track list \<Rightarrow> App \<Rightarrow> App" where
  "togglePlayPause isPlaying_cl cl s =
     (let s1 = (if isPlaying_cl then Transport_pause s
                else foldl (\<lambda>acc track. Player_start (player track) acc) (Transport_start s) cl)
      in s1\<lparr>isPlaying := \<not> isPlaying_cl\<rparr>)"

definition pollCurrentTime :: "App \<Rightarrow> App" where
  "pollCurrentTime s = s\<lparr>currentTime := transport_seconds s\<rparr>"

text \<open>
  What happens to the transport over time is a sequence of events: a click on the
  play/pause button (with the closure of the render it comes from), a tick of the
  polling interval, and time passing. \<open>polled\<close> lists the values that the ticks of a
  sequence write to \<open>currentTime\<close>, oldest first. \<open>no_click\<close> holds of the events that
  are not a click.
\<close>

datatype event = TogglePlayPause bool "Track list" | Poll | Elapse nat

fun step :: "event \<Rightarrow> App \<Rightarrow> App" where
  "step (TogglePlayPause isPlaying_cl cl) s = togglePlayPause isPlaying_cl cl s"
| "step Poll s = pollCurrentTime s"
| "step (Elapse ms) s = Transport_elapse ms s"

definition run_events :: "event list \<Rightarrow> App \<Rightarrow> App" where
  "run_events es s = foldl (\<lambda>acc e. step e acc) s es"

fun polled :: "event list \<Rightarrow> App \<Rightarrow> real list" where
  "polled [] s = []"
| "polled (Poll # es) s = currentTime (step Poll s) # polled es (step Poll s)"
| "polled (e # es) s = polled es (step e s)"

fun no_click :: "event \<Rightarrow> bool" where
  "no_click (TogglePlayPause isPlaying_cl cl) = False"
| "no_click e = True"

section \<open>Upload\<close>

text \<open>
  The template literal \<open>`track-${Date.now()}-${i}`\<close> prints both numbers in decimal.
\<close>

definition digit :: "nat \<Rightarrow> char" where
  "digit d = ''0123456789'' ! d"

fun decimal :: "nat \<Rightarrow> string" where
  "decimal n = (if n < 10 then [digit n] else decimal (n div 10) @ [digit (n mod 10)])"

declare decimal.simps [simp del]

definition track_id :: "nat \<Rightarrow> nat \<Rightarrow> string" where
  "track_id now i = ''track-'' @ decimal now @ ''-'' @ decimal i"

text \<open>
  The body of the loop of \<open>handleFileUpload\<close> after a successful decode (lines
  57-77): three nodes are created, the player first, then the panner, then the pitch
  shifter, with the parameters their constructors are given (\<open>Panner(0)\<close>,
  \<open>PitchShift(0)\<close>; a new player has volume 0 and is not muted), and the new track is
  appended. The wiring of the nodes (\<open>connect\<close>, \<open>toDestination\<close>) has no parameter
  of its own and is not modelled.
\<close>

definition newTrack :: "nat \<Rightarrow> nat \<Rightarrow> File \<Rightarrow> AudioBuffer \<Rightarrow> node \<Rightarrow> Track" where
  "newTrack now i file ab n =
     \<lparr>id_t = track_id now i, name = file_name file, audioBuffer = ab,
      player = n, panner = n + 1, pitchShift = n + 2,
      muted = False, solo = False, volume = 0, pan = 0, pitch = 0, blob = file\<rparr>"

definition addTrack :: "nat \<Rightarrow> nat \<Rightarrow> File \<Rightarrow> AudioBuffer \<Rightarrow> App \<Rightarrow> App" where
  "addTrack now i file ab s =
     (let n = next_node s in
      s\<lparr>player_volume := (player_volume s)(n := 0),
        player_mute := (player_mute s)(n := False),
        panner_pan := (panner_pan s)(n + 1 := 0),
        pitchShift_pitch := (pitchShift_pitch s)(n + 2 := 0),
        next_node := n + 3,
        tracks := tracks s @ [newTrack now i file ab n]\<rparr>)"

text \<open>
  \<open>handleFileUpload\<close> is an async function: its result is a promise, resolved when
  the loop ends and rejected when an awaited promise rejects, since the source has no
  \<open>try\<close>. The decoder \<open>Tone.context.decodeAudioData\<close> is a parameter: \<open>Inl\<close> is a
  rejection with its reason. \<open>now i\<close> is the value \<open>Date.now()\<close> returns in iteration
  \<open>i\<close>. \<open>event.target.files\<close> may be null (\<open>None\<close>). The model runs one call to
  its end; a second call that overlaps the first in time is the second call applied to
  the state the first one leaves, since each iteration only appends to \<open>tracks\<close>
  through an updater and creates nodes of its own.
\<close>

datatype outcome = Resolved | Rejected string

fun upload_loop ::
  "(nat list \<Rightarrow> string + AudioBuffer) \<Rightarrow> (nat \<Rightarrow> nat) \<Rightarrow> nat \<Rightarrow> File list \<Rightarrow> App \<Rightarrow> outcome \<times> App"
where
  "upload_loop decodeAudioData now i [] s = (Resolved, s)"
| "upload_loop decodeAudioData now i (file # rest) s =
     (case decodeAudioData (file_bytes file) of
        Inl reason \<Rightarrow> (Rejected reason, s)
      | Inr ab \<Rightarrow> upload_loop decodeAudioData now (Suc i) rest (addTrack (now i) i file ab s))"

definition handleFileUpload ::
  "(nat list \<Rightarrow> string + AudioBuffer) \<Rightarrow> (nat \<Rightarrow> nat) \<Rightarrow> File list option \<Rightarrow> App \<Rightarrow> outcome \<times> App"
where
  "handleFileUpload decodeAudioData now files s =
     (case files of
        None \<Rightarrow> (Resolved, s)
      | Some fs \<Rightarrow> upload_loop decodeAudioData now 0 fs s)"

section \<open>Waveform views\<close>

text \<open>
  The effect of lines 32-46 runs after every render in which \<open>tracks\<close> changed, over
  the track list of that render. \<open>bindWaveform\<close> is the body of its \<open>forEach\<close>: an id
  with an entry in \<open>wavesurferRefs\<close> is skipped, otherwise an instance is created on
  the container \<open>#waveform-<id>\<close>, given the blob, and stored under the id.
\<close>

definition bindWaveform :: "Track \<Rightarrow> App \<Rightarrow> App" where
  "bindWaveform track s =
     (case wavesurferRefs s (id_t track) of
        Some w \<Rightarrow> s
      | None \<Rightarrow>
          s\<lparr>wavesurfers :=
              wavesurfers s @ [\<lparr>container = ''#waveform-'' @ id_t track, loaded = [blob track]\<rparr>],
            wavesurferRefs := (wavesurferRefs s)(id_t track \<mapsto> length (wavesurfers s))\<rparr>)"

definition wavesurferEffect :: "App \<Rightarrow> App" where
  "wavesurferEffect s = foldl (\<lambda>acc track. bindWaveform track acc) s (tracks s)"

section \<open>Example inputs\<close>

text \<open>
  A decoder that rejects an empty file and returns the bytes of any other file as the
  decoded audio, two kinds of file, and the state after uploading two good files at
  timestamp 1700 into the initial state.
\<close>

definition ex_decode :: "nat list \<Rightarrow> string + AudioBuffer" where
  "ex_decode bytes = (if bytes = [] then Inl ''EncodingError'' else Inr bytes)"

definition wav :: "string \<Rightarrow> File" where
  "wav n = \<lparr>file_name = n, file_bytes = [82, 73, 70, 70]\<rparr>"

definition empty_file :: "string \<Rightarrow> File" where
  "empty_file n = \<lparr>file_name = n, file_bytes = []\<rparr>"

definition two_tracks :: App where
  "two_tracks =
     snd (handleFileUpload ex_decode (\<lambda>i. 1700) (Some [wav ''a.wav'', wav ''b.wav'']) initial)"

text \<open>
  The state after play is clicked in \<open>two_tracks\<close>, a quarter of a second passes and
  pause is clicked.
\<close>

definition paused_at_quarter :: App where
  "paused_at_quarter =
     run_events [TogglePlayPause False (tracks two_tracks), Elapse 250,
                 TogglePlayPause True (tracks two_tracks)] two_tracks"

lemmas ex_defs =
  two_tracks_def handleFileUpload_def ex_decode_def wav_def empty_file_def initial_def
  addTrack_def newTrack_def track_id_def decimal.simps digit_def Let_def

lemma tracks_two_tracks:
  "tracks two_tracks =
    [\<lparr>id_t = ''track-1700-0'', name = ''a.wav'', audioBuffer = [82, 73, 70, 70],
      player = 0, panner = 1, pitchShift = 2, muted = False, solo = False,
      volume = 0, pan = 0, pitch = 0, blob = wav ''a.wav''\<rparr>,
     \<lparr>id_t = ''track-1700-1'', name = ''b.wav'', audioBuffer = [82, 73, 70, 70],
      player = 3, panner = 4, pitchShift = 5, muted = False, solo = False,
      volume = 0, pan = 0, pitch = 0, blob = wav ''b.wav''\<rparr>]"
  by (simp add: ex_defs)

section \<open>Solo and mute\<close>

lemma solo_handleSolo_upd:
  "map solo (handleSolo_upd i ts) = map (\<lambda>t. if id_t t = i then \<not> solo t else solo t) ts"
  by (simp add: handleSolo_upd_def Let_def o_def)

lemma list_ex_solo_map: "list_ex solo xs = (True \<in> set (map solo xs))"
  by (auto simp: list_ex_iff)

lemma hasSolo_handleSolo_upd:
  "list_ex solo (handleSolo_upd i ts) =
   list_ex solo (map (\<lambda>track. if id_t track = i then track\<lparr>solo := \<not> solo track\<rparr> else track) ts)"
proof -
  have "map solo (handleSolo_upd i ts) =
        map solo (map (\<lambda>track. if id_t track = i then track\<lparr>solo := \<not> solo track\<rparr> else track) ts)"
    by (simp add: solo_handleSolo_upd o_def)
  then show ?thesis
    by (simp only: list_ex_solo_map)
qed

lemma muted_handleSolo_upd:
  "map muted (handleSolo_upd i ts) =
   (if list_ex solo (handleSolo_upd i ts)
    then map (\<lambda>t. \<not> (if id_t t = i then \<not> solo t else solo t)) ts
    else map muted ts)"
  unfolding hasSolo_handleSolo_upd
  by (simp add: handleSolo_upd_def Let_def o_def)

lemma tracks_handleSolo: "tracks (handleSolo i s) = handleSolo_upd i (tracks s)"
  by (simp add: handleSolo_def)

lemma handleSolo_seq_snoc: "handleSolo_seq (ids @ [i]) s = handleSolo i (handleSolo_seq ids s)"
  by (simp add: handleSolo_seq_def)

text \<open>
  Claim C1 says that once no track is soloed any more, every mute flag is back at the
  value it had before the first solo. \<open>handleSolo\<close> keeps no copy of the earlier
  flags. What holds instead: the call that leaves no track soloed does not change any
  mute flag, so the flags stay as the solo rule set them while a track was soloed.
\<close>

theorem solo_off_keeps_mute_flags:
  assumes "\<not> list_ex solo (tracks (handleSolo_seq (ids @ [i]) s))"
  shows "map muted (tracks (handleSolo_seq (ids @ [i]) s)) =
         map muted (tracks (handleSolo_seq ids s))"
  using assms
  by (simp add: handleSolo_seq_snoc tracks_handleSolo muted_handleSolo_upd)

theorem solo_off_keeps_mute_flags_witness:
  "\<not> list_ex solo (tracks (handleSolo_seq ([''track-1700-0''] @ [''track-1700-0'']) two_tracks)) \<and>
   map muted (tracks (handleSolo_seq ([''track-1700-0''] @ [''track-1700-0'']) two_tracks)) =
   map muted (tracks (handleSolo_seq [''track-1700-0''] two_tracks))"
proof -
  have h: "\<not> list_ex solo (tracks (handleSolo_seq ([''track-1700-0''] @ [''track-1700-0'']) two_tracks))"
    by (simp add: handleSolo_seq_def handleSolo_def handleSolo_upd_def tracks_two_tracks)
  show ?thesis
    using h solo_off_keeps_mute_flags [OF h] by simp
qed

text \<open>
  Counterexample to C1: both tracks start unmuted; the first track is soloed and
  un-soloed again. No track is soloed at the end, and the second track is muted.
\<close>

theorem solo_roundtrip_counterexample:
  "\<not> list_ex solo (tracks (handleSolo_seq [''track-1700-0'', ''track-1700-0''] two_tracks)) \<and>
   map muted (tracks (handleSolo_seq [''track-1700-0'', ''track-1700-0''] two_tracks)) = [False, True] \<and>
   map muted (tracks two_tracks) = [False, False]"
  by (simp add: handleSolo_seq_def handleSolo_def handleSolo_upd_def tracks_two_tracks)

text \<open>
  Claim C2 says that while a track is soloed, every track that is not soloed is muted
  and every soloed track keeps the mute flag the user gave it. The first half holds;
  the second does not, because \<open>handleSolo\<close> writes \<open>muted = !solo\<close> on every track. As
  amended: after a \<open>handleSolo\<close> call that leaves a track soloed, a track is muted
  exactly when it is not soloed.
\<close>

theorem solo_forces_mute_mask:
  assumes "list_ex solo (tracks (handleSolo i s))"
  shows "map muted (tracks (handleSolo i s)) = map (\<lambda>t. \<not> solo t) (tracks (handleSolo i s))"
proof -
  have "map (\<lambda>t. \<not> solo t) (handleSolo_upd i (tracks s)) =
        map Not (map solo (handleSolo_upd i (tracks s)))"
    by (simp add: o_def)
  also have "\<dots> = map (\<lambda>t. \<not> (if id_t t = i then \<not> solo t else solo t)) (tracks s)"
    by (simp only: solo_handleSolo_upd map_map o_def)
  finally show ?thesis
    using assms by (simp add: tracks_handleSolo muted_handleSolo_upd)
qed

theorem solo_forces_mute_mask_witness:
  "list_ex solo (tracks (handleSolo ''track-1700-1'' two_tracks)) \<and>
   map muted (tracks (handleSolo ''track-1700-1'' two_tracks)) =
   map (\<lambda>t. \<not> solo t) (tracks (handleSolo ''track-1700-1'' two_tracks))"
proof -
  have h: "list_ex solo (tracks (handleSolo ''track-1700-1'' two_tracks))"
    by (simp add: handleSolo_def handleSolo_upd_def tracks_two_tracks)
  show ?thesis
    using h solo_forces_mute_mask [OF h] by simp
qed

text \<open>
  Counterexample to C2: the user mutes the first track and then solos it. The track is
  soloed and its mute flag is \<open>False\<close>, not the \<open>True\<close> the user had set.
\<close>

theorem soloed_track_forced_unmuted_counterexample:
  "map muted (tracks (handleMute (tracks two_tracks) ''track-1700-0'' two_tracks)) = [True, False] \<and>
   map solo (tracks (handleSolo ''track-1700-0''
      (handleMute (tracks two_tracks) ''track-1700-0'' two_tracks))) = [True, False] \<and>
   map muted (tracks (handleSolo ''track-1700-0''
      (handleMute (tracks two_tracks) ''track-1700-0'' two_tracks))) = [False, True]"
  by (simp add: handleMute_def handleMute_upd_def handleSolo_def handleSolo_upd_def
      tracks_two_tracks)

text \<open>
  Claim C3 says that every change of a track's volume, pan, pitch or mute state is
  pushed to the track's nodes, and names the mute change made by a solo toggle.
  \<open>handleMute\<close> writes \<open>player.mute\<close>; \<open>handleSolo\<close> writes no node at all. With two
  unmuted tracks, soloing the first sets the second track's \<open>muted\<close> to \<open>True\<close> and
  leaves its player unmuted, while muting the second track by \<open>handleMute\<close> mutes its
  player.
\<close>

theorem solo_mute_not_pushed_to_player:
  "map muted (tracks (handleSolo ''track-1700-0'' two_tracks)) = [False, True] \<and>
   map (\<lambda>t. player_mute (handleSolo ''track-1700-0'' two_tracks) (player t))
     (tracks (handleSolo ''track-1700-0'' two_tracks)) = [False, False] \<and>
   map muted (tracks (handleMute (tracks two_tracks) ''track-1700-1'' two_tracks)) = [False, True] \<and>
   map (\<lambda>t. player_mute (handleMute (tracks two_tracks) ''track-1700-1'' two_tracks) (player t))
     (tracks (handleMute (tracks two_tracks) ''track-1700-1'' two_tracks)) = [False, True]"
  by (simp add: handleMute_def handleMute_upd_def handleSolo_def handleSolo_upd_def
      tracks_two_tracks)
    (simp add: ex_defs)

section \<open>Volume, pan and pitch\<close>

lemma tracks_handleVolumeChange:
  "tracks (handleVolumeChange cl i v s) = handleVolumeChange_upd i v (tracks s)"
  by (simp add: handleVolumeChange_def Let_def split: option.split)

lemma tracks_handlePanChange:
  "tracks (snd (handlePanChange cl i v s)) = handlePanChange_upd i v (tracks s)"
  by (simp add: handlePanChange_def Let_def split: option.split)

lemma tracks_handlePitchChange:
  "tracks (handlePitchChange cl i v s) = handlePitchChange_upd i v (tracks s)"
  by (simp add: handlePitchChange_def Let_def split: option.split)

lemmas tracks_setters = tracks_handleVolumeChange tracks_handlePanChange tracks_handlePitchChange

lemmas setters_upd_defs =
  handleVolumeChange_upd_def handlePanChange_upd_def handlePitchChange_upd_def

lemma find_present:
  "(List.find (\<lambda>t. id_t t = i) cl \<noteq> None) = (i \<in> id_t ` set cl)"
  by (auto simp: find_None_iff)

text \<open>
  Claim C4 says that the three setters clamp their input to the ranges of the data
  model. They do not: the handlers store the number they are given in the track. (The
  range inputs of the page, with their \<open>min\<close> and \<open>max\<close>, are what keeps the values in
  range.) As amended: the value stored in the track is the input; and when the id is
  one of the closure's tracks and the pan is outside -1 to 1, \<open>handlePanChange\<close> ends
  with a \<open>RangeError\<close> and the panner keeps its pan, while a pan within the range is
  written to the panner of the first track with that id.
\<close>

theorem setters_store_input:
  assumes "k < length (tracks s)" and "id_t (tracks s ! k) = i"
  shows "volume (tracks (handleVolumeChange cl i v s) ! k) = v \<and>
         pan (tracks (snd (handlePanChange cl i v s)) ! k) = v \<and>
         pitch (tracks (handlePitchChange cl i v s) ! k) = v \<and>
         fst (handlePanChange cl i v s) =
           (if i \<in> id_t ` set cl \<and> (v < - 1 \<or> 1 < v) then Some RangeError else None) \<and>
         panner_pan (snd (handlePanChange cl i v s)) =
           (case List.find (\<lambda>t. id_t t = i) cl of
              None \<Rightarrow> panner_pan s
            | Some t \<Rightarrow> if v < - 1 \<or> 1 < v then panner_pan s else (panner_pan s)(panner t := v))"
proof -
  have "volume (tracks (handleVolumeChange cl i v s) ! k) = v"
    "pan (tracks (snd (handlePanChange cl i v s)) ! k) = v"
    "pitch (tracks (handlePitchChange cl i v s) ! k) = v"
    using assms by (simp_all add: tracks_setters setters_upd_defs)
  moreover have "fst (handlePanChange cl i v s) =
      (if i \<in> id_t ` set cl \<and> (v < - 1 \<or> 1 < v) then Some RangeError else None)"
    using find_present [of i cl]
    by (cases "List.find (\<lambda>t. id_t t = i) cl") (simp_all add: handlePanChange_def Let_def)
  moreover have "panner_pan (snd (handlePanChange cl i v s)) =
      (case List.find (\<lambda>t. id_t t = i) cl of
         None \<Rightarrow> panner_pan s
       | Some t \<Rightarrow> if v < - 1 \<or> 1 < v then panner_pan s else (panner_pan s)(panner t := v))"
    by (cases "List.find (\<lambda>t. id_t t = i) cl") (simp_all add: handlePanChange_def Let_def)
  ultimately show ?thesis by simp
qed

theorem setters_store_input_witness:
  "(0::nat) < length (tracks two_tracks) \<and> id_t (tracks two_tracks ! 0) = ''track-1700-0'' \<and>
   volume (tracks (handleVolumeChange (tracks two_tracks) ''track-1700-0'' (- 20) two_tracks) ! 0) = - 20 \<and>
   pan (tracks (snd (handlePanChange (tracks two_tracks) ''track-1700-0'' (- 20) two_tracks)) ! 0) = - 20 \<and>
   pitch (tracks (handlePitchChange (tracks two_tracks) ''track-1700-0'' (- 20) two_tracks) ! 0) = - 20 \<and>
   fst (handlePanChange (tracks two_tracks) ''track-1700-0'' (- 20) two_tracks) = Some RangeError \<and>
   panner_pan (snd (handlePanChange (tracks two_tracks) ''track-1700-0'' (- 20) two_tracks)) =
     panner_pan two_tracks"
proof -
  have h1: "(0::nat) < length (tracks two_tracks)"
    by (simp add: tracks_two_tracks)
  have h2: "id_t (tracks two_tracks ! 0) = ''track-1700-0''"
    by (simp add: tracks_two_tracks)
  show ?thesis
    using h1 h2 setters_store_input [OF h1 h2, of "tracks two_tracks" "- 20"]
    by (simp add: tracks_two_tracks)
qed

text \<open>
  Counterexample to C4: volume 10, pan -5 and pitch 24 are stored in the track as they
  are. The player gets volume 10 and the pitch shifter pitch 24; the panner refuses
  pan -5 with a \<open>RangeError\<close> and keeps pan 0, so nothing is clamped to -1 either.
\<close>

theorem setters_do_not_clamp_counterexample:
  "volume (tracks (handleVolumeChange (tracks two_tracks) ''track-1700-0'' 10 two_tracks) ! 0) = 10 \<and>
   player_volume (handleVolumeChange (tracks two_tracks) ''track-1700-0'' 10 two_tracks) 0 = 10 \<and>
   pan (tracks (snd (handlePanChange (tracks two_tracks) ''track-1700-0'' (- 5) two_tracks)) ! 0) = - 5 \<and>
   fst (handlePanChange (tracks two_tracks) ''track-1700-0'' (- 5) two_tracks) = Some RangeError \<and>
   panner_pan (snd (handlePanChange (tracks two_tracks) ''track-1700-0'' (- 5) two_tracks)) 1 = 0 \<and>
   pitch (tracks (handlePitchChange (tracks two_tracks) ''track-1700-0'' 24 two_tracks) ! 0) = 24 \<and>
   pitchShift_pitch (handlePitchChange (tracks two_tracks) ''track-1700-0'' 24 two_tracks) 2 = 24"
  by (simp add: handleVolumeChange_def handleVolumeChange_upd_def handlePanChange_def
      handlePanChange_upd_def handlePitchChange_def handlePitchChange_upd_def tracks_two_tracks)
    (simp add: ex_defs)

lemma map_upd_distinct:
  assumes "distinct (map id_t ts)" and "k < length ts" and "id_t (ts ! k) = i"
  shows "map (\<lambda>t. if id_t t = i then f t else t) ts = ts[k := f (ts ! k)]"
proof (rule nth_equalityI)
  show "length (map (\<lambda>t. if id_t t = i then f t else t) ts) = length (ts[k := f (ts ! k)])"
    by simp
next
  fix j assume "j < length (map (\<lambda>t. if id_t t = i then f t else t) ts)"
  then have j: "j < length ts" by simp
  show "map (\<lambda>t. if id_t t = i then f t else t) ts ! j = ts[k := f (ts ! k)] ! j"
  proof (cases "j = k")
    case True
    with assms show ?thesis by simp
  next
    case False
    have "map id_t ts ! j \<noteq> map id_t ts ! k"
      using nth_eq_iff_index_eq [of "map id_t ts" j k] assms(1,2) j False by simp
    then have "id_t (ts ! j) \<noteq> i"
      using assms(2,3) j by simp
    then show ?thesis
      using j False by simp
  qed
qed

lemma setters_one_track:
  assumes "distinct (map id_t (tracks s))" and "k < length (tracks s)"
    and "id_t (tracks s ! k) = i"
  shows "tracks (handleVolumeChange cl i v s) = (tracks s)[k := (tracks s ! k)\<lparr>volume := v\<rparr>] \<and>
         tracks (snd (handlePanChange cl i v s)) = (tracks s)[k := (tracks s ! k)\<lparr>pan := v\<rparr>] \<and>
         tracks (handlePitchChange cl i v s) = (tracks s)[k := (tracks s ! k)\<lparr>pitch := v\<rparr>]"
  using map_upd_distinct [OF assms, of "\<lambda>t. t\<lparr>volume := v\<rparr>"]
    map_upd_distinct [OF assms, of "\<lambda>t. t\<lparr>pan := v\<rparr>"]
    map_upd_distinct [OF assms, of "\<lambda>t. t\<lparr>pitch := v\<rparr>"]
  by (simp add: tracks_setters setters_upd_defs)

text \<open>
  Claim C10: a setter replaces one field of the track with the given id and nothing
  else. At every index \<open>k\<close> of the list, the track after the call is the track before
  it, with the one field replaced when its id is the given one; the list keeps its
  length, hence its order. When the ids of the list are distinct, the whole list after
  the call is the list before it updated at the one index whose track has the id.
\<close>

theorem setters_change_one_field:
  assumes "k < length (tracks s)"
  shows "length (tracks (handleVolumeChange cl i v s)) = length (tracks s) \<and>
         tracks (handleVolumeChange cl i v s) ! k =
           (if id_t (tracks s ! k) = i then (tracks s ! k)\<lparr>volume := v\<rparr> else tracks s ! k) \<and>
         length (tracks (snd (handlePanChange cl i v s))) = length (tracks s) \<and>
         tracks (snd (handlePanChange cl i v s)) ! k =
           (if id_t (tracks s ! k) = i then (tracks s ! k)\<lparr>pan := v\<rparr> else tracks s ! k) \<and>
         length (tracks (handlePitchChange cl i v s)) = length (tracks s) \<and>
         tracks (handlePitchChange cl i v s) ! k =
           (if id_t (tracks s ! k) = i then (tracks s ! k)\<lparr>pitch := v\<rparr> else tracks s ! k) \<and>
         (distinct (map id_t (tracks s)) \<and> id_t (tracks s ! k) = i \<longrightarrow>
            tracks (handleVolumeChange cl i v s) = (tracks s)[k := (tracks s ! k)\<lparr>volume := v\<rparr>] \<and>
            tracks (snd (handlePanChange cl i v s)) = (tracks s)[k := (tracks s ! k)\<lparr>pan := v\<rparr>] \<and>
            tracks (handlePitchChange cl i v s) = (tracks s)[k := (tracks s ! k)\<lparr>pitch := v\<rparr>])"
proof -
  have "length (tracks (handleVolumeChange cl i v s)) = length (tracks s)"
    "length (tracks (snd (handlePanChange cl i v s))) = length (tracks s)"
    "length (tracks (handlePitchChange cl i v s)) = length (tracks s)"
    by (simp_all add: tracks_setters setters_upd_defs)
  moreover have "tracks (handleVolumeChange cl i v s) ! k =
      (if id_t (tracks s ! k) = i then (tracks s ! k)\<lparr>volume := v\<rparr> else tracks s ! k)"
    using assms by (simp add: tracks_setters setters_upd_defs)
  moreover have "tracks (snd (handlePanChange cl i v s)) ! k =
      (if id_t (tracks s ! k) = i then (tracks s ! k)\<lparr>pan := v\<rparr> else tracks s ! k)"
    using assms by (simp add: tracks_setters setters_upd_defs)
  moreover have "tracks (handlePitchChange cl i v s) ! k =
      (if id_t (tracks s ! k) = i then (tracks s ! k)\<lparr>pitch := v\<rparr> else tracks s ! k)"
    using assms by (simp add: tracks_setters setters_upd_defs)
  ultimately show ?thesis
    using setters_one_track [OF _ assms, of i cl v] by blast
qed

theorem setters_change_one_field_witness:
  "(1::nat) < length (tracks two_tracks) \<and>
   distinct (map id_t (tracks two_tracks)) \<and>
   id_t (tracks two_tracks ! 1) = ''track-1700-1'' \<and>
   tracks (handleVolumeChange (tracks two_tracks) ''track-1700-1'' (- 1) two_tracks) =
     [tracks two_tracks ! 0, (tracks two_tracks ! 1)\<lparr>volume := - 1\<rparr>] \<and>
   tracks (snd (handlePanChange (tracks two_tracks) ''track-1700-1'' (- 1) two_tracks)) =
     [tracks two_tracks ! 0, (tracks two_tracks ! 1)\<lparr>pan := - 1\<rparr>] \<and>
   tracks (handlePitchChange (tracks two_tracks) ''track-1700-1'' (- 1) two_tracks) =
     [tracks two_tracks ! 0, (tracks two_tracks ! 1)\<lparr>pitch := - 1\<rparr>]"
proof -
  have h: "(1::nat) < length (tracks two_tracks)"
    by (simp add: tracks_two_tracks)
  have d: "distinct (map id_t (tracks two_tracks))"
    by (simp add: tracks_two_tracks)
  have e: "id_t (tracks two_tracks ! 1) = ''track-1700-1''"
    by (simp add: tracks_two_tracks)
  have l: "(tracks two_tracks)[1 := x] = [tracks two_tracks ! 0, x]" for x
    by (simp add: tracks_two_tracks)
  from setters_change_one_field [OF h, of "tracks two_tracks" "''track-1700-1''" "- 1"] d e
  have "tracks (handleVolumeChange (tracks two_tracks) ''track-1700-1'' (- 1) two_tracks) =
          (tracks two_tracks)[1 := (tracks two_tracks ! 1)\<lparr>volume := - 1\<rparr>] \<and>
        tracks (snd (handlePanChange (tracks two_tracks) ''track-1700-1'' (- 1) two_tracks)) =
          (tracks two_tracks)[1 := (tracks two_tracks ! 1)\<lparr>pan := - 1\<rparr>] \<and>
        tracks (handlePitchChange (tracks two_tracks) ''track-1700-1'' (- 1) two_tracks) =
          (tracks two_tracks)[1 := (tracks two_tracks ! 1)\<lparr>pitch := - 1\<rparr>]"
    by blast
  then show ?thesis
    using h d e by (simp only: l)
qed

section \<open>Unknown track ids\<close>

lemma map_upd_absent:
  assumes "i \<notin> id_t ` set ts"
  shows "map (\<lambda>t. if id_t t = i then f t else t) ts = ts"
  using assms by (induction ts) auto

lemma find_absent:
  assumes "i \<notin> id_t ` set cl"
  shows "List.find (\<lambda>t. id_t t = i) cl = None"
  using assms by (auto simp: find_None_iff)

lemma handleSolo_upd_absent:
  assumes "i \<notin> id_t ` set ts"
  shows "handleSolo_upd i ts =
         map (\<lambda>t. t\<lparr>muted := (if list_ex solo ts then \<not> solo t else muted t)\<rparr>) ts"
  using assms by (simp add: handleSolo_upd_def map_upd_absent)

text \<open>
  Claim C7 says that an update with an id that no track has changes nothing and emits
  a warning. No handler writes to the console, and \<open>handleSolo\<close> recomputes the mute
  flags whatever the id. As amended: with such an id, \<open>handleMute\<close> and the three
  setters leave the whole state as it is (tracks, nodes and console), silently, and
  \<open>handlePanChange\<close> throws nothing;
  \<open>handleSolo\<close> changes no solo flag, node or console line, leaves the state as it is
  when no track is soloed, and otherwise sets every \<open>muted\<close> to \<open>!solo\<close>.
\<close>

theorem unknown_id_is_silent:
  assumes "i \<notin> id_t ` set cl" and "i \<notin> id_t ` set (tracks s)"
  shows "handleMute cl i s = s \<and>
         handleVolumeChange cl i v s = s \<and>
         handlePanChange cl i v s = (None, s) \<and>
         handlePitchChange cl i v s = s \<and>
         handleSolo i s =
           (if list_ex solo (tracks s)
            then s\<lparr>tracks := map (\<lambda>t. t\<lparr>muted := \<not> solo t\<rparr>) (tracks s)\<rparr>
            else s)"
  using assms
  by (simp add: handleMute_def handleVolumeChange_def handlePanChange_def handlePitchChange_def
      handleSolo_def find_absent handleSolo_upd_absent handleMute_upd_def setters_upd_defs
      map_upd_absent)

theorem unknown_id_is_silent_witness:
  "''track-9'' \<notin> id_t ` set (tracks two_tracks) \<and>
   handleMute (tracks two_tracks) ''track-9'' two_tracks = two_tracks \<and>
   handleVolumeChange (tracks two_tracks) ''track-9'' (- 6) two_tracks = two_tracks \<and>
   handlePanChange (tracks two_tracks) ''track-9'' (- 6) two_tracks = (None, two_tracks) \<and>
   handlePitchChange (tracks two_tracks) ''track-9'' (- 6) two_tracks = two_tracks \<and>
   handleSolo ''track-9'' two_tracks = two_tracks"
proof -
  have h: "''track-9'' \<notin> id_t ` set (tracks two_tracks)"
    by (simp add: tracks_two_tracks)
  have n: "\<not> list_ex solo (tracks two_tracks)"
    by (simp add: tracks_two_tracks)
  show ?thesis
    using h n unknown_id_is_silent [OF h h, of "- 6"] by simp
qed

text \<open>
  Counterexample to C7: with the unknown id \<open>track-9\<close>, \<open>handleMute\<close> and \<open>handleSolo\<close>
  leave the console empty; and after the first track is soloed and the user has
  unmuted the second, \<open>handleSolo\<close> with the unknown id mutes the second track again.
\<close>

theorem unknown_id_counterexample:
  "console (handleMute (tracks two_tracks) ''track-9'' two_tracks) = [] \<and>
   console (handleSolo ''track-9'' two_tracks) = [] \<and>
   map muted (tracks (handleMute (tracks (handleSolo ''track-1700-0'' two_tracks)) ''track-1700-1''
       (handleSolo ''track-1700-0'' two_tracks)))
     = [False, False] \<and>
   map muted (tracks (handleSolo ''track-9''
       (handleMute (tracks (handleSolo ''track-1700-0'' two_tracks)) ''track-1700-1''
          (handleSolo ''track-1700-0'' two_tracks))))
     = [False, True]"
  by (simp add: handleMute_def handleMute_upd_def handleSolo_def handleSolo_upd_def
      tracks_two_tracks)
    (simp add: ex_defs)

section \<open>Upload: decode failures and track ids\<close>

lemma tracks_addTrack:
  "tracks (addTrack t i file ab s) = tracks s @ [newTrack t i file ab (next_node s)]"
  by (simp add: addTrack_def Let_def)

lemma upload_loop_stops:
  assumes "\<forall>f \<in> set fs1. \<not> isl (dec (file_bytes f))" and "dec (file_bytes f) = Inl r"
  shows "fst (upload_loop dec now i (fs1 @ f # fs2) s) = Rejected r \<and>
         map blob (tracks (snd (upload_loop dec now i (fs1 @ f # fs2) s))) =
           map blob (tracks s) @ fs1"
  using assms
proof (induction fs1 arbitrary: i s)
  case Nil
  then show ?case by simp
next
  case (Cons a fs1)
  from Cons.prems(1) obtain ab where ab: "dec (file_bytes a) = Inr ab"
    by (cases "dec (file_bytes a)") auto
  have "\<forall>f \<in> set fs1. \<not> isl (dec (file_bytes f))"
    using Cons.prems(1) by simp
  from Cons.IH [OF this Cons.prems(2), of "Suc i" "addTrack (now i) i a ab s"]
  show ?case
    by (simp add: ab tracks_addTrack newTrack_def)
qed

lemma upload_loop_all_decoded:
  assumes "\<forall>f \<in> set fs. \<not> isl (dec (file_bytes f))"
  shows "fst (upload_loop dec now i fs s) = Resolved \<and>
         map blob (tracks (snd (upload_loop dec now i fs s))) = map blob (tracks s) @ fs \<and>
         map id_t (tracks (snd (upload_loop dec now i fs s))) =
           map id_t (tracks s) @ map (\<lambda>j. track_id (now j) j) [i ..< i + length fs]"
  using assms
proof (induction fs arbitrary: i s)
  case Nil
  then show ?case by simp
next
  case (Cons a fs)
  from Cons.prems(1) obtain ab where ab: "dec (file_bytes a) = Inr ab"
    by (cases "dec (file_bytes a)") auto
  have "\<forall>f \<in> set fs. \<not> isl (dec (file_bytes f))"
    using Cons.prems(1) by simp
  from Cons.IH [OF this, of "Suc i" "addTrack (now i) i a ab s"]
  have ih: "fst (upload_loop dec now (Suc i) fs (addTrack (now i) i a ab s)) = Resolved \<and>
      map blob (tracks (snd (upload_loop dec now (Suc i) fs (addTrack (now i) i a ab s)))) =
        map blob (tracks s) @ a # fs \<and>
      map id_t (tracks (snd (upload_loop dec now (Suc i) fs (addTrack (now i) i a ab s)))) =
        map id_t (tracks s) @ track_id (now i) i #
          map (\<lambda>j. track_id (now j) j) [Suc i ..< Suc i + length fs]"
    by (simp add: tracks_addTrack newTrack_def)
  have "[i ..< i + length (a # fs)] = i # [Suc i ..< Suc i + length fs]"
    using upt_conv_Cons [of i "Suc i + length fs"] by (simp del: upt_Suc)
  then show ?case
    using ih by (simp add: ab del: upt_Suc)
qed

text \<open>
  Claim C5 says that a file that fails to decode does not stop the files after it. The
  loop awaits the decoder without a \<open>try\<close>, so the first rejection ends the handler.
  As amended: the files before the first one that fails to decode are ingested, in
  order; that file and every file after it are not, and the handler's promise is
  rejected with the decoder's reason.
\<close>

theorem upload_stops_at_first_decode_failure:
  assumes "\<forall>f \<in> set fs1. \<not> isl (dec (file_bytes f))" and "dec (file_bytes f) = Inl r"
  shows "fst (handleFileUpload dec now (Some (fs1 @ f # fs2)) s) = Rejected r \<and>
         map blob (tracks (snd (handleFileUpload dec now (Some (fs1 @ f # fs2)) s))) =
           map blob (tracks s) @ fs1"
  using upload_loop_stops [OF assms] by (simp add: handleFileUpload_def)

theorem upload_stops_at_first_decode_failure_witness:
  "\<not> isl (ex_decode (file_bytes (wav ''c.wav''))) \<and>
   ex_decode (file_bytes (empty_file ''d.txt'')) = Inl ''EncodingError'' \<and>
   fst (handleFileUpload ex_decode (\<lambda>i. 1800)
          (Some ([wav ''c.wav''] @ empty_file ''d.txt'' # [wav ''e.wav''])) two_tracks) =
     Rejected ''EncodingError'' \<and>
   map blob (tracks (snd (handleFileUpload ex_decode (\<lambda>i. 1800)
          (Some ([wav ''c.wav''] @ empty_file ''d.txt'' # [wav ''e.wav''])) two_tracks))) =
     [wav ''a.wav'', wav ''b.wav'', wav ''c.wav'']"
proof -
  have h1: "\<forall>f \<in> set [wav ''c.wav'']. \<not> isl (ex_decode (file_bytes f))"
    by (simp add: ex_decode_def wav_def)
  have h2: "ex_decode (file_bytes (empty_file ''d.txt'')) = Inl ''EncodingError''"
    by (simp add: ex_decode_def empty_file_def)
  show ?thesis
    using h1 h2
      upload_stops_at_first_decode_failure [OF h1 h2, of "\<lambda>i. 1800" "[wav ''e.wav'']" two_tracks]
    by (simp add: tracks_two_tracks)
qed

text \<open>
  Counterexample to C5: three files are uploaded into the initial state and the second
  fails to decode. One track results, for the first file; the third file is not
  ingested.
\<close>

theorem upload_batch_counterexample:
  "map name (tracks (snd (handleFileUpload ex_decode (\<lambda>i. 1700)
       (Some [wav ''a.wav'', empty_file ''b.txt'', wav ''c.wav'']) initial))) = [''a.wav''] \<and>
   fst (handleFileUpload ex_decode (\<lambda>i. 1700)
       (Some [wav ''a.wav'', empty_file ''b.txt'', wav ''c.wav'']) initial) =
     Rejected ''EncodingError''"
  by (simp add: ex_defs)

subsection \<open>Track ids\<close>

lemma digit_inj:
  assumes "d < 10" and "e < 10" and "digit d = digit e"
  shows "d = e"
proof -
  have "distinct ''0123456789''" by simp
  moreover have "d < length ''0123456789''" "e < length ''0123456789''"
    using assms by simp_all
  ultimately show ?thesis
    using assms(3) unfolding digit_def by (simp only: nth_eq_iff_index_eq)
qed

lemma digit_not_dash:
  assumes "d < 10"
  shows "digit d \<noteq> CHR ''-''"
proof -
  have "digit d \<in> set ''0123456789''"
    unfolding digit_def using assms by (intro nth_mem) simp
  then show ?thesis by auto
qed

lemma decimal_not_Nil: "decimal n \<noteq> []"
  by (subst decimal.simps) simp

lemma decimal_small: "n < 10 \<Longrightarrow> decimal n = [digit n]"
  by (subst decimal.simps) simp

lemma decimal_large: "\<not> n < 10 \<Longrightarrow> decimal n = decimal (n div 10) @ [digit (n mod 10)]"
  by (subst decimal.simps) simp

lemma dash_notin_decimal: "CHR ''-'' \<notin> set (decimal n)"
proof (induction n rule: decimal.induct)
  case (1 n)
  show ?case
  proof (cases "n < 10")
    case True
    then show ?thesis
      using digit_not_dash [of n] by (simp add: decimal_small)
  next
    case False
    then show ?thesis
      using 1 digit_not_dash [of "n mod 10"] by (simp add: decimal_large)
  qed
qed

lemma decimal_inj: "decimal n = decimal m \<Longrightarrow> n = m"
proof (induction n arbitrary: m rule: decimal.induct)
  case (1 n)
  show ?case
  proof (cases "n < 10")
    case n: True
    show ?thesis
    proof (cases "m < 10")
      case True
      with n 1(2) show ?thesis
        by (simp add: decimal_small digit_inj)
    next
      case False
      with n 1(2) show ?thesis
        using decimal_not_Nil [of "m div 10"] by (auto simp: decimal_small decimal_large)
    qed
  next
    case n: False
    show ?thesis
    proof (cases "m < 10")
      case True
      with n 1(2) show ?thesis
        using decimal_not_Nil [of "n div 10"] by (auto simp: decimal_small decimal_large)
    next
      case False
      with n 1(2) have "decimal (n div 10) = decimal (m div 10)"
        and "digit (n mod 10) = digit (m mod 10)"
        by (simp_all add: decimal_large)
      then have "n div 10 = m div 10" and "n mod 10 = m mod 10"
        using 1(1) [OF n] digit_inj [of "n mod 10" "m mod 10"] by simp_all
      then show ?thesis
        by (metis div_mult_mod_eq)
    qed
  qed
qed

lemma split_at_dash:
  assumes "xs @ CHR ''-'' # ys = xs' @ CHR ''-'' # ys'"
    and "CHR ''-'' \<notin> set xs" and "CHR ''-'' \<notin> set xs'"
  shows "xs = xs' \<and> ys = ys'"
proof -
  have "takeWhile (\<lambda>c. c \<noteq> CHR ''-'') (xs @ CHR ''-'' # ys) = xs"
    using assms(2) by (induction xs) auto
  moreover have "takeWhile (\<lambda>c. c \<noteq> CHR ''-'') (xs' @ CHR ''-'' # ys') = xs'"
    using assms(3) by (induction xs') auto
  ultimately have "xs = xs'" using assms(1) by simp
  with assms(1) show ?thesis by simp
qed

lemma track_id_inj:
  assumes "track_id t i = track_id t' i'"
  shows "t = t' \<and> i = i'"
proof -
  from assms have "decimal t @ CHR ''-'' # decimal i = decimal t' @ CHR ''-'' # decimal i'"
    by (simp add: track_id_def)
  then have "decimal t = decimal t' \<and> decimal i = decimal i'"
    by (rule split_at_dash) (simp_all add: dash_notin_decimal)
  then show ?thesis
    by (simp add: decimal_inj)
qed

text \<open>
  Within one upload the ids are distinct, whatever the clock returns: the loop index is
  part of the id.
\<close>

lemma upload_ids_distinct_within_batch:
  assumes "\<forall>f \<in> set fs. \<not> isl (dec (file_bytes f))"
  shows "distinct (drop (length (tracks s))
           (map id_t (tracks (snd (handleFileUpload dec now (Some fs) s)))))"
proof -
  have "distinct (map (\<lambda>j. track_id (now j) j) [0 ..< length fs])"
    by (auto simp: distinct_map inj_on_def dest: track_id_inj)
  then show ?thesis
    using upload_loop_all_decoded [OF assms, of now 0 s]
    by (simp add: handleFileUpload_def)
qed

text \<open>
  Claim C6 says that track ids are distinct also for tracks created by two upload
  actions in the same instant. The id is made of the timestamp and the index of the
  file within its own upload, so the first files of two uploads that read the same
  \<open>Date.now()\<close> get the same id: uploading \<open>a.wav\<close> and then \<open>b.wav\<close>, each alone, at
  timestamp 1700 gives two tracks with the id \<open>track-1700-0\<close>.
\<close>

theorem same_instant_uploads_share_id:
  "map id_t (tracks (snd (handleFileUpload ex_decode (\<lambda>i. 1700) (Some [wav ''b.wav''])
      (snd (handleFileUpload ex_decode (\<lambda>i. 1700) (Some [wav ''a.wav'']) initial))))) =
     [''track-1700-0'', ''track-1700-0''] \<and>
   map name (tracks (snd (handleFileUpload ex_decode (\<lambda>i. 1700) (Some [wav ''b.wav''])
      (snd (handleFileUpload ex_decode (\<lambda>i. 1700) (Some [wav ''a.wav'']) initial))))) =
     [''a.wav'', ''b.wav''] \<and>
   \<not> distinct (map id_t (tracks (snd (handleFileUpload ex_decode (\<lambda>i. 1700) (Some [wav ''b.wav''])
      (snd (handleFileUpload ex_decode (\<lambda>i. 1700) (Some [wav ''a.wav'']) initial))))))"
  by (simp add: ex_defs)

section \<open>Waveform views are bound once\<close>

lemma bindWaveform_bound:
  assumes "wavesurferRefs s (id_t t) \<noteq> None"
  shows "bindWaveform t s = s"
  using assms by (auto simp: bindWaveform_def)

lemma tracks_bindWaveform: "tracks (bindWaveform t s) = tracks s"
  by (simp add: bindWaveform_def split: option.split)

lemma dom_bindWaveform:
  "dom (wavesurferRefs (bindWaveform t s)) = insert (id_t t) (dom (wavesurferRefs s))"
  by (auto simp: bindWaveform_def split: option.splits)

lemma length_bindWaveform:
  "length (wavesurfers (bindWaveform t s)) =
   length (wavesurfers s) + (if id_t t \<in> dom (wavesurferRefs s) then 0 else 1)"
  by (auto simp: bindWaveform_def split: option.splits)

lemma prefix_bindWaveform:
  "take (length (wavesurfers s)) (wavesurfers (bindWaveform t s)) = wavesurfers s"
  by (simp add: bindWaveform_def split: option.split)

lemma wavesurfers_bindWaveform_new:
  assumes "id_t t \<notin> dom (wavesurferRefs s)"
  shows "wavesurfers (bindWaveform t s) =
         wavesurfers s @ [\<lparr>container = ''#waveform-'' @ id_t t, loaded = [blob t]\<rparr>]"
  using assms by (auto simp: bindWaveform_def split: option.splits)

lemma tracks_bind_all: "tracks (foldl (\<lambda>acc t. bindWaveform t acc) s ts) = tracks s"
  by (induction ts arbitrary: s) (simp_all add: tracks_bindWaveform)

lemma dom_bind_all:
  "dom (wavesurferRefs (foldl (\<lambda>acc t. bindWaveform t acc) s ts)) =
   dom (wavesurferRefs s) \<union> id_t ` set ts"
  by (induction ts arbitrary: s) (simp_all add: dom_bindWaveform)

lemma bind_all_bound:
  assumes "id_t ` set ts \<subseteq> dom (wavesurferRefs s)"
  shows "foldl (\<lambda>acc t. bindWaveform t acc) s ts = s"
  using assms
proof (induction ts)
  case Nil
  then show ?case by simp
next
  case (Cons t ts)
  then have "bindWaveform t s = s"
    by (intro bindWaveform_bound) auto
  with Cons show ?case by simp
qed

lemma wavesurferEffect_idem: "wavesurferEffect (wavesurferEffect s) = wavesurferEffect s"
proof -
  have "tracks (wavesurferEffect s) = tracks s"
    by (simp add: wavesurferEffect_def tracks_bind_all)
  moreover have "id_t ` set (tracks s) \<subseteq> dom (wavesurferRefs (wavesurferEffect s))"
    by (simp add: wavesurferEffect_def dom_bind_all)
  ultimately show ?thesis
    using bind_all_bound [of "tracks s" "wavesurferEffect s"]
    by (simp add: wavesurferEffect_def)
qed

lemma wavesurferEffect_repeat: "(wavesurferEffect ^^ Suc n) s = wavesurferEffect s"
  by (induction n) (simp_all add: wavesurferEffect_idem)

lemma card_new_ids:
  assumes "finite A" and "x \<notin> D"
  shows "card (insert x A - D) = Suc (card (A - insert x D))"
proof -
  have "insert x A - D = insert x (A - insert x D)"
    using assms(2) by auto
  moreover have "x \<notin> A - insert x D" by simp
  ultimately show ?thesis
    using assms(1) by simp
qed

lemma length_bind_all:
  "length (wavesurfers (foldl (\<lambda>acc t. bindWaveform t acc) s ts)) =
   length (wavesurfers s) + card (id_t ` set ts - dom (wavesurferRefs s))"
proof (induction ts arbitrary: s)
  case Nil
  then show ?case by simp
next
  case (Cons t ts)
  show ?case
  proof (cases "id_t t \<in> dom (wavesurferRefs s)")
    case True
    then have "bindWaveform t s = s"
      by (intro bindWaveform_bound) auto
    moreover have "id_t ` set (t # ts) - dom (wavesurferRefs s) = id_t ` set ts - dom (wavesurferRefs s)"
      using True by auto
    ultimately show ?thesis
      using Cons [of s] by simp
  next
    case False
    then have "card (id_t ` set (t # ts) - dom (wavesurferRefs s)) =
      Suc (card (id_t ` set ts - insert (id_t t) (dom (wavesurferRefs s))))"
      using card_new_ids [of "id_t ` set ts" "id_t t" "dom (wavesurferRefs s)"] by simp
    then show ?thesis
      using Cons [of "bindWaveform t s"] False
      by (simp add: length_bindWaveform dom_bindWaveform)
  qed
qed

lemma prefix_bind_all:
  "take (length (wavesurfers s)) (wavesurfers (foldl (\<lambda>acc t. bindWaveform t acc) s ts)) =
   wavesurfers s"
proof (induction ts arbitrary: s)
  case Nil
  then show ?case by simp
next
  case (Cons t ts)
  have le: "length (wavesurfers s) \<le> length (wavesurfers (bindWaveform t s))"
    by (simp add: length_bindWaveform)
  have "take (length (wavesurfers s)) (wavesurfers (foldl (\<lambda>acc t. bindWaveform t acc) (bindWaveform t s) ts)) =
        take (length (wavesurfers s)) (take (length (wavesurfers (bindWaveform t s)))
          (wavesurfers (foldl (\<lambda>acc t. bindWaveform t acc) (bindWaveform t s) ts)))"
    using le by (simp add: min_def)
  also have "\<dots> = take (length (wavesurfers s)) (wavesurfers (bindWaveform t s))"
    by (simp only: Cons)
  also have "\<dots> = wavesurfers s"
    by (rule prefix_bindWaveform)
  finally show ?case by simp
qed

lemma created_bind_all:
  "set (drop (length (wavesurfers s)) (wavesurfers (foldl (\<lambda>acc t. bindWaveform t acc) s ts))) \<subseteq>
     (\<lambda>t. \<lparr>container = ''#waveform-'' @ id_t t, loaded = [blob t]\<rparr>) ` set ts \<and>
   container ` set (drop (length (wavesurfers s))
       (wavesurfers (foldl (\<lambda>acc t. bindWaveform t acc) s ts))) =
     (\<lambda>i. ''#waveform-'' @ i) ` (id_t ` set ts - dom (wavesurferRefs s))"
proof (induction ts arbitrary: s)
  case Nil
  then show ?case by simp
next
  case (Cons t ts)
  let ?f = "\<lambda>acc t. bindWaveform t acc"
  show ?case
  proof (cases "id_t t \<in> dom (wavesurferRefs s)")
    case True
    then have "bindWaveform t s = s"
      by (intro bindWaveform_bound) auto
    moreover have "id_t ` set (t # ts) - dom (wavesurferRefs s) = id_t ` set ts - dom (wavesurferRefs s)"
      using True by auto
    ultimately show ?thesis
      using Cons [of s] by auto
  next
    case False
    let ?s1 = "bindWaveform t s"
    let ?new = "\<lparr>container = ''#waveform-'' @ id_t t, loaded = [blob t]\<rparr>"
    let ?all = "wavesurfers (foldl ?f ?s1 ts)"
    have ws1: "wavesurfers ?s1 = wavesurfers s @ [?new]"
      using False by (rule wavesurfers_bindWaveform_new)
    have "?all = take (length (wavesurfers ?s1)) ?all @ drop (length (wavesurfers ?s1)) ?all"
      by simp
    also have "take (length (wavesurfers ?s1)) ?all = wavesurfers ?s1"
      by (rule prefix_bind_all)
    finally have "?all = wavesurfers s @ ?new # drop (length (wavesurfers ?s1)) ?all"
      by (simp add: ws1)
    then have dr: "drop (length (wavesurfers s)) ?all = ?new # drop (length (wavesurfers ?s1)) ?all"
      by (metis append_eq_conv_conj)
    have ids: "id_t ` set (t # ts) - dom (wavesurferRefs s) =
        insert (id_t t) (id_t ` set ts - dom (wavesurferRefs ?s1))"
      using False by (auto simp: dom_bindWaveform)
    show ?thesis
      using Cons [of ?s1] by (simp only: foldl_Cons dr ids) auto
  qed
qed

text \<open>
  Claim C8: binding the waveform views is idempotent per track id. For every state and
  every number of runs of the effect over the same track list:
  \<^item> \<open>n + 1\<close> runs leave the state that one run leaves;
  \<^item> a run keeps the instances that exist, as they are (nothing is loaded again), and
    creates one instance for every track id of the list that has no entry in
    \<open>wavesurferRefs\<close>: the number of new instances is the number of such ids, their
    containers are the containers of these ids, and each is created on a track of the
    list with that track's blob loaded once;
  \<^item> from a state with no entry, with distinct track ids, that is one instance per
    track;
  \<^item> for a track whose id has an entry, the body of the effect changes nothing.
\<close>

theorem wavesurfer_binding_idempotent:
  "(wavesurferEffect ^^ Suc n) s = wavesurferEffect s \<and>
   take (length (wavesurfers s)) (wavesurfers (wavesurferEffect s)) = wavesurfers s \<and>
   length (wavesurfers (wavesurferEffect s)) =
     length (wavesurfers s) + card (id_t ` set (tracks s) - dom (wavesurferRefs s)) \<and>
   container ` set (drop (length (wavesurfers s)) (wavesurfers (wavesurferEffect s))) =
     (\<lambda>i. ''#waveform-'' @ i) ` (id_t ` set (tracks s) - dom (wavesurferRefs s)) \<and>
   set (drop (length (wavesurfers s)) (wavesurfers (wavesurferEffect s))) \<subseteq>
     (\<lambda>t. \<lparr>container = ''#waveform-'' @ id_t t, loaded = [blob t]\<rparr>) ` set (tracks s) \<and>
   (wavesurferRefs s = Map.empty \<and> distinct (map id_t (tracks s)) \<longrightarrow>
      length (wavesurfers ((wavesurferEffect ^^ Suc n) s)) =
        length (wavesurfers s) + length (tracks s)) \<and>
   (wavesurferRefs s (id_t t) \<noteq> None \<longrightarrow> bindWaveform t s = s)"
proof -
  have len: "length (wavesurfers (wavesurferEffect s)) =
      length (wavesurfers s) + card (id_t ` set (tracks s) - dom (wavesurferRefs s))"
    by (simp add: wavesurferEffect_def length_bind_all)
  have one: "length (wavesurfers ((wavesurferEffect ^^ Suc n) s)) =
      length (wavesurfers s) + length (tracks s)"
    if "wavesurferRefs s = Map.empty" and "distinct (map id_t (tracks s))"
  proof -
    have "card (id_t ` set (tracks s)) = length (tracks s)"
      using distinct_card [OF that(2)] by simp
    then show ?thesis
      using that(1) by (simp only: wavesurferEffect_repeat len) simp
  qed
  show ?thesis
    using len one created_bind_all [of s "tracks s"] bindWaveform_bound [of s t]
    by (simp only: wavesurferEffect_repeat)
      (simp add: wavesurferEffect_def prefix_bind_all)
qed

theorem wavesurfer_binding_idempotent_witness:
  "wavesurferRefs two_tracks = Map.empty \<and>
   distinct (map id_t (tracks two_tracks)) \<and>
   length (wavesurfers ((wavesurferEffect ^^ Suc 2) two_tracks)) = 2 \<and>
   (wavesurferEffect ^^ Suc 2) two_tracks = wavesurferEffect two_tracks \<and>
   wavesurfers (wavesurferEffect two_tracks) =
     [\<lparr>container = ''#waveform-track-1700-0'', loaded = [wav ''a.wav'']\<rparr>,
      \<lparr>container = ''#waveform-track-1700-1'', loaded = [wav ''b.wav'']\<rparr>] \<and>
   wavesurferRefs (wavesurferEffect two_tracks) (id_t (tracks two_tracks ! 0)) \<noteq> None \<and>
   bindWaveform (tracks two_tracks ! 0) (wavesurferEffect two_tracks) = wavesurferEffect two_tracks"
proof -
  have r: "wavesurferRefs two_tracks = Map.empty" and w: "wavesurfers two_tracks = []"
    by (simp_all add: ex_defs)
  have d: "distinct (map id_t (tracks two_tracks))"
    by (simp add: tracks_two_tracks)
  have ws: "wavesurfers (wavesurferEffect two_tracks) =
     [\<lparr>container = ''#waveform-track-1700-0'', loaded = [wav ''a.wav'']\<rparr>,
      \<lparr>container = ''#waveform-track-1700-1'', loaded = [wav ''b.wav'']\<rparr>]"
    by (simp add: wavesurferEffect_def bindWaveform_def tracks_two_tracks r w)
  have b: "wavesurferRefs (wavesurferEffect two_tracks) (id_t (tracks two_tracks ! 0)) \<noteq> None"
    by (simp add: wavesurferEffect_def bindWaveform_def tracks_two_tracks r w)
  show ?thesis
    using r d ws b
      wavesurfer_binding_idempotent [of 2 two_tracks "tracks two_tracks ! 0"]
      wavesurfer_binding_idempotent [of 2 "wavesurferEffect two_tracks" "tracks two_tracks ! 0"]
    by (simp add: w tracks_two_tracks)
qed

section \<open>The polled transport clock\<close>

lemma transport_Player_starts:
  "transport_seconds (foldl (\<lambda>acc track. Player_start (player track) acc) s cl) = transport_seconds s \<and>
   transport_state (foldl (\<lambda>acc track. Player_start (player track) acc) s cl) = transport_state s \<and>
   currentTime (foldl (\<lambda>acc track. Player_start (player track) acc) s cl) = currentTime s"
  by (induction cl arbitrary: s) (simp_all add: Player_start_def)

lemma seconds_togglePlayPause:
  "transport_seconds (togglePlayPause c cl s) = transport_seconds s"
  by (simp add: togglePlayPause_def Let_def transport_Player_starts Transport_pause_def
      Transport_start_def)

lemma state_togglePlayPause:
  "transport_state (togglePlayPause c cl s) =
     (if c then (if transport_state s = Started then Paused else transport_state s) else Started)"
  by (simp add: togglePlayPause_def Let_def transport_Player_starts Transport_pause_def
      Transport_start_def)

lemma currentTime_togglePlayPause:
  "currentTime (togglePlayPause c cl s) = currentTime s"
  by (simp add: togglePlayPause_def Let_def transport_Player_starts Transport_pause_def
      Transport_start_def)

lemma seconds_step: "transport_seconds s \<le> transport_seconds (step e s)"
  by (cases e) (simp_all add: seconds_togglePlayPause pollCurrentTime_def Transport_elapse_def)

lemma seconds_run_events: "transport_seconds s \<le> transport_seconds (run_events es s)"
proof (induction es arbitrary: s)
  case Nil
  then show ?case by (simp add: run_events_def)
next
  case (Cons e es)
  have "transport_seconds s \<le> transport_seconds (step e s)"
    by (rule seconds_step)
  also have "\<dots> \<le> transport_seconds (run_events es (step e s))"
    by (rule Cons)
  finally show ?case by (simp add: run_events_def)
qed

lemma polled_Cons_subset:
  "set (polled (e # es) s) \<subseteq> insert (transport_seconds s) (set (polled es (step e s)))"
  by (cases e) (auto simp: pollCurrentTime_def)

lemma polled_lower_bound: "x \<in> set (polled es s) \<Longrightarrow> transport_seconds s \<le> x"
proof (induction es arbitrary: s)
  case Nil
  then show ?case by simp
next
  case (Cons e es)
  from Cons.prems polled_Cons_subset [of e es s]
  consider "x = transport_seconds s" | "x \<in> set (polled es (step e s))"
    by auto
  then show ?case
  proof cases
    case 1
    then show ?thesis by simp
  next
    case 2
    then have "transport_seconds (step e s) \<le> x"
      by (rule Cons.IH)
    with seconds_step [of s e] show ?thesis by simp
  qed
qed

lemma sorted_polled: "sorted (polled es s)"
proof (induction es arbitrary: s)
  case Nil
  then show ?case by simp
next
  case (Cons e es)
  show ?case
  proof (cases e)
    case (TogglePlayPause c cl)
    with Cons [of "step e s"] show ?thesis by simp
  next
    case Poll
    with Cons [of "step Poll s"] polled_lower_bound [of _ es "step Poll s"]
    show ?thesis by (auto simp: pollCurrentTime_def)
  next
    case (Elapse ms)
    with Cons [of "step e s"] show ?thesis by simp
  qed
qed

lemma step_frozen:
  assumes "transport_state s \<noteq> Started" and "no_click e"
  shows "transport_seconds (step e s) = transport_seconds s \<and> transport_state (step e s) = transport_state s"
  using assms by (cases e) (simp_all add: pollCurrentTime_def Transport_elapse_def)

lemma frozen_run:
  assumes "transport_state s \<noteq> Started" and "list_all no_click es"
  shows "transport_seconds (run_events es s) = transport_seconds s \<and>
         transport_state (run_events es s) = transport_state s \<and>
         set (polled es s) \<subseteq> {transport_seconds s}"
  using assms
proof (induction es arbitrary: s)
  case Nil
  then show ?case by (simp add: run_events_def)
next
  case (Cons e es)
  have st: "transport_seconds (step e s) = transport_seconds s \<and> transport_state (step e s) = transport_state s"
    using Cons.prems by (intro step_frozen) simp_all
  then have ih: "transport_seconds (run_events es (step e s)) = transport_seconds s \<and>
         transport_state (run_events es (step e s)) = transport_state s \<and>
         set (polled es (step e s)) \<subseteq> {transport_seconds s}"
    using Cons.IH [of "step e s"] Cons.prems by simp
  show ?case
  proof (cases e)
    case (TogglePlayPause b cl)
    with Cons.prems show ?thesis by simp
  next
    case Poll
    with ih show ?thesis by (simp add: run_events_def pollCurrentTime_def)
  next
    case (Elapse ms)
    with ih show ?thesis by (simp add: run_events_def)
  qed
qed


text \<open>
  Claim C9: the value polled from the transport clock never decreases while the
  transport is playing, is constant while it is paused, and resumes from the frozen
  value when play is clicked after a pause. The component only ever calls \<open>start()\<close>,
  without an offset, and \<open>pause()\<close> on the transport, so, with the clock of section
  4.4, for every state and every sequence of clicks, ticks and passing time:
  \<^item> the polled values are in non-decreasing order, also after the value shown before;
  \<^item> the clock is never behind where it was;
  \<^item> from a state that is not playing, without a click, the clock stays where it is
    and every polled value is that value;
  \<^item> a click never changes the clock;
  \<^item> from a paused state, the click on play starts the transport, and a tick after
    \<open>ms\<close> more milliseconds reads the frozen value plus these milliseconds.
\<close>

theorem polled_clock_monotone_frozen_resumed:
  "sorted (polled es s) \<and>
   (currentTime s \<le> transport_seconds s \<longrightarrow> sorted (currentTime s # polled es s)) \<and>
   transport_seconds s \<le> transport_seconds (run_events es s) \<and>
   (transport_state s \<noteq> Started \<and> list_all no_click es \<longrightarrow>
      transport_seconds (run_events es s) = transport_seconds s \<and>
      set (polled es s) \<subseteq> {transport_seconds s}) \<and>
   transport_seconds (togglePlayPause c cl s) = transport_seconds s \<and>
   (transport_state s = Paused \<longrightarrow>
      transport_state (togglePlayPause False cl s) = Started \<and>
      polled [TogglePlayPause False cl, Elapse ms, Poll] s = [transport_seconds s + real ms / 1000])"
proof -
  have "sorted (currentTime s # polled es s)" if "currentTime s \<le> transport_seconds s"
    using that sorted_polled [of es s] polled_lower_bound [of _ es s] by fastforce
  moreover have "polled [TogglePlayPause False cl, Elapse ms, Poll] s =
      [transport_seconds s + real ms / 1000]"
    by (simp add: pollCurrentTime_def Transport_elapse_def state_togglePlayPause
        seconds_togglePlayPause)
  ultimately show ?thesis
    using sorted_polled [of es s] seconds_run_events [of s es] frozen_run [of s es]
      seconds_togglePlayPause [of c cl s] state_togglePlayPause [of False cl s]
    by simp
qed

theorem polled_clock_monotone_frozen_resumed_witness:
  "transport_state paused_at_quarter = Paused \<and>
   transport_seconds paused_at_quarter = 1 / 4 \<and>
   list_all no_click [Elapse 400, Poll] \<and>
   currentTime paused_at_quarter \<le> transport_seconds paused_at_quarter \<and>
   transport_seconds (run_events [Elapse 400, Poll] paused_at_quarter) = 1 / 4 \<and>
   sorted (currentTime paused_at_quarter # polled [Elapse 400, Poll] paused_at_quarter) \<and>
   transport_state (togglePlayPause False (tracks two_tracks) paused_at_quarter) = Started \<and>
   polled [TogglePlayPause False (tracks two_tracks), Elapse 100, Poll] paused_at_quarter = [7 / 20]"
proof -
  have p: "transport_state paused_at_quarter = Paused"
    "transport_seconds paused_at_quarter = 1 / 4"
    "currentTime paused_at_quarter = 0"
    by (simp_all add: paused_at_quarter_def run_events_def state_togglePlayPause
        seconds_togglePlayPause currentTime_togglePlayPause Transport_elapse_def ex_defs)
  have n: "list_all no_click [Elapse 400, Poll]"
    by simp
  show ?thesis
    using p n
      polled_clock_monotone_frozen_resumed
        [of "[Elapse 400, Poll]" paused_at_quarter True "tracks two_tracks" 100]
    by simp
qed

end
